theory Spec2Isabelle
  imports Complex_Main
begin

section \<open>Donut label placement: the embedding\<close>

text \<open>
  The dashboard has two label callbacks for its donut charts: \<open>renderDonutLabel\<close>, a plain
  label with a percentage threshold, and the closure returned by \<open>makeDonutLabelRenderer\<close>,
  which keeps two arrays \<open>usedLeft\<close> and \<open>usedRight\<close> of already claimed y-coordinates and
  separates labels vertically. The charts pass the closure as their \<open>label\<close>;
  \<open>makeDonutLabelRenderer\<close> occurs twice in the sources, with the same body.

  JavaScript numbers are modelled as real numbers: finite values and exact arithmetic.
  \<open>NaN\<close>, the infinities and rounding are outside the model. The closure's captured arrays
  are an explicit state that \<open>DonutLabel\<close> takes and returns. A React element is a record of
  the attributes the callback computes; \<open>null\<close> (nothing drawn) is \<open>None\<close>.
\<close>

subsection \<open>Data\<close>

text \<open>
  The fields the callbacks destructure from \<open>props\<close>. The chart host passes \<open>percent\<close> as
  a fraction of the whole (0 to 1); \<open>value\<close> is a count, written \<open>pvalue\<close> here.
\<close>

record props =
  cx :: real
  cy :: real
  midAngle :: real
  outerRadius :: real
  percent :: real
  name :: string
  pvalue :: int
  fill :: string
  index :: nat

text \<open>The parameters of \<open>makeDonutLabelRenderer(minGap = 16, extraRadius = 22, showValue = true)\<close>.\<close>

record config =
  minGap :: real
  extraRadius :: real
  showValue :: bool

definition default_config :: config where
  "default_config = \<lparr>minGap = 16, extraRadius = 22, showValue = True\<rparr>"

text \<open>The two arrays captured by the closure.\<close>

record stacks =
  usedLeft :: "real list"
  usedRight :: "real list"

definition empty_stacks :: stacks where
  "empty_stacks = \<lparr>usedLeft = [], usedRight = []\<rparr>"

datatype text_anchor = Start | End

text \<open>
  What \<open>DonutLabel\<close> returns: the polyline \<open>(x0,y0) (x,y) (x1,y)\<close> and the text element at
  \<open>(xText, y)\<close>.
\<close>

record label =
  lx0 :: real
  ly0 :: real
  lx :: real
  ly :: real
  lx1 :: real
  lxText :: real
  lanchor :: text_anchor
  ltext :: string
  lfill :: string

text \<open>What \<open>renderDonutLabel\<close> returns: one text element.\<close>

record text_label =
  tx :: real
  ty :: real
  tfill :: string
  tanchor :: text_anchor
  ttext :: string

subsection \<open>Numbers and strings\<close>

definition RAD :: real where
  "RAD = pi / 180"

text \<open>\<open>percent || 0\<close>: a falsy number is replaced by 0.\<close>

definition or_zero :: "real \<Rightarrow> real" where
  "or_zero x = (if x = 0 then 0 else x)"

text \<open>\<open>Math.round\<close> rounds to the nearest integer, halves upwards.\<close>

definition math_round :: "real \<Rightarrow> int" where
  "math_round x = \<lfloor>x + 1 / 2\<rfloor>"

text \<open>An integer in a template literal is printed in decimal.\<close>

definition digit_char :: "nat \<Rightarrow> char" where
  "digit_char d = ''0123456789'' ! d"

fun nat_str :: "nat \<Rightarrow> string" where
  "nat_str n = (if n < 10 then [digit_char n] else nat_str (n div 10) @ [digit_char (n mod 10)])"

declare nat_str.simps [simp del]

definition int_str :: "int \<Rightarrow> string" where
  "int_str i = (if i < 0 then CHR ''-'' # nat_str (nat (- i)) else nat_str (nat i))"




subsection \<open>renderDonutLabel\<close>

definition renderDonutLabel :: "props \<Rightarrow> text_label option" where
  "renderDonutLabel p =
    (let pct = or_zero (percent p) * 100;
         alwaysShow = (name p = ''Completed'' \<or> name p = ''In Progress'')
     in if \<not> alwaysShow \<and> pct < 3 then None
        else
          let extra = (if pct < 3 then 28 else 18);
              r = outerRadius p + extra;
              x = cx p + r * cos (- midAngle p * RAD);
              y = cy p + r * sin (- midAngle p * RAD);
              anchor = (if x > cx p then Start else End)
          in Some \<lparr>tx = x, ty = y, tfill = fill p, tanchor = anchor,
                   ttext = name p @ '' '' @ int_str (math_round pct) @ ''%''\<rparr>)"

subsection \<open>makeDonutLabelRenderer\<close>

text \<open>\<open>stack.every(yy => Math.abs(yy - y) >= minGap)\<close>\<close>

definition gap_clear :: "real \<Rightarrow> real list \<Rightarrow> real \<Rightarrow> bool" where
  "gap_clear g stack y = list_all (\<lambda>yy. \<bar>yy - y\<bar> \<ge> g) stack"

text \<open>
  The loop \<open>for (let i = 0; i < 60; i++) { if (every ...) break; y += dir * minGap }\<close>,
  started at \<open>i = 0\<close>; its result is the value of \<open>y\<close> when the loop is left.
\<close>

function separate :: "real \<Rightarrow> real \<Rightarrow> real list \<Rightarrow> nat \<Rightarrow> real \<Rightarrow> real" where
  "separate g dir stack i y =
     (if i < 60 then
        (if gap_clear g stack y then y else separate g dir stack (i + 1) (y + dir * g))
      else y)"
  by pat_completeness auto
termination
  by (relation "measure (\<lambda>(g, dir, stack, i, y). 60 - i)") auto

declare separate.simps [simp del]

text \<open>
  The intermediate values of one call, named as in the source. \<open>st\<close> below is the pair of
  stacks after the reset at \<open>index === 0\<close>.
\<close>

definition reset_stacks :: "stacks \<Rightarrow> props \<Rightarrow> stacks" where
  "reset_stacks st p = (if index p = 0 then \<lparr>usedLeft = [], usedRight = []\<rparr> else st)"

definition cand_x :: "config \<Rightarrow> props \<Rightarrow> real" where
  "cand_x cfg p = cx p + (outerRadius p + extraRadius cfg) * cos (- midAngle p * RAD)"

definition cand_y :: "config \<Rightarrow> props \<Rightarrow> real" where
  "cand_y cfg p = cy p + (outerRadius p + extraRadius cfg) * sin (- midAngle p * RAD)"

definition isRight :: "config \<Rightarrow> props \<Rightarrow> bool" where
  "isRight cfg p = (cand_x cfg p \<ge> cx p)"

definition side_stack :: "config \<Rightarrow> stacks \<Rightarrow> props \<Rightarrow> real list" where
  "side_stack cfg st p = (if isRight cfg p then usedRight st else usedLeft st)"

definition dir_of :: "config \<Rightarrow> props \<Rightarrow> real" where
  "dir_of cfg p = (if cand_y cfg p \<ge> cy p then 1 else - 1)"

text \<open>The value pushed on the side's stack: \<open>y\<close> after the loop, before the clamp.\<close>

definition placed_y :: "config \<Rightarrow> stacks \<Rightarrow> props \<Rightarrow> real" where
  "placed_y cfg st p =
     separate (minGap cfg) (dir_of cfg p) (side_stack cfg st p) 0 (cand_y cfg p)"

definition push_y :: "config \<Rightarrow> stacks \<Rightarrow> props \<Rightarrow> real \<Rightarrow> stacks" where
  "push_y cfg st p y =
     (if isRight cfg p then st\<lparr>usedRight := usedRight st @ [y]\<rparr>
      else st\<lparr>usedLeft := usedLeft st @ [y]\<rparr>)"

definition yLimit :: "config \<Rightarrow> props \<Rightarrow> real" where
  "yLimit cfg p = outerRadius p + extraRadius cfg + 40"

text \<open>
  \<open>if (y < cy - yLimit) y = cy - yLimit; if (y > cy + yLimit) y = cy + yLimit\<close>:
  two assignments in sequence.
\<close>

definition clamp_y :: "config \<Rightarrow> props \<Rightarrow> real \<Rightarrow> real" where
  "clamp_y cfg p y =
     (let y1 = (if y < cy p - yLimit cfg p then cy p - yLimit cfg p else y)
      in if y1 > cy p + yLimit cfg p then cy p + yLimit cfg p else y1)"

definition leaderLen :: real where
  "leaderLen = 10"

definition xMax :: "config \<Rightarrow> props \<Rightarrow> real" where
  "xMax cfg p = cx p + outerRadius p + extraRadius cfg + 20"

definition xMin :: "config \<Rightarrow> props \<Rightarrow> real" where
  "xMin cfg p = cx p - outerRadius p - extraRadius cfg - 20"

definition leader_x :: "config \<Rightarrow> props \<Rightarrow> real" where
  "leader_x cfg p =
     (let x1 = (if isRight cfg p then cand_x cfg p + leaderLen else cand_x cfg p - leaderLen);
          x1a = (if x1 > xMax cfg p then xMax cfg p else x1)
      in if x1a < xMin cfg p then xMin cfg p else x1a)"

definition textOut :: "config \<Rightarrow> props \<Rightarrow> string" where
  "textOut cfg p =
     (let pct = or_zero (percent p) * 100
      in if showValue cfg
         then name p @ '' '' @ int_str (math_round pct) @ ''% ('' @ int_str (pvalue p) @ '')''
         else name p @ '' '' @ int_str (math_round pct) @ ''%'')"

text \<open>
  One call of the closure: the stacks before the call go in, the stacks after it and the
  returned element come out. The closure has no \<open>return null\<close>: it returns an element on every
  path.
\<close>

definition DonutLabel :: "config \<Rightarrow> stacks \<Rightarrow> props \<Rightarrow> stacks \<times> label option" where
  "DonutLabel cfg st0 p =
    (let st = reset_stacks st0 p;
         x0 = cx p + outerRadius p * cos (- midAngle p * RAD);
         y0 = cy p + outerRadius p * sin (- midAngle p * RAD);
         x = cand_x cfg p;
         y = placed_y cfg st p;
         st' = push_y cfg st p y;
         yc = clamp_y cfg p y;
         x1 = leader_x cfg p;
         xText = (if isRight cfg p then x1 + 6 else x1 - 6);
         anchor = (if isRight cfg p then Start else End)
     in (st', Some \<lparr>lx0 = x0, ly0 = y0, lx = x, ly = yc, lx1 = x1, lxText = xText,
                     lanchor = anchor, ltext = textOut cfg p, lfill = fill p\<rparr>))"

text \<open>
  The chart host calls the label callback once per sector, in the order of the data. A render
  pass is this sequence of calls, threading the stacks; it yields what each call returned.
\<close>

fun render_pass :: "config \<Rightarrow> stacks \<Rightarrow> props list \<Rightarrow> stacks \<times> label option list" where
  "render_pass cfg st [] = (st, [])"
| "render_pass cfg st (p # ps) =
     (let (st1, out) = DonutLabel cfg st p;
          (st2, outs) = render_pass cfg st1 ps
      in (st2, out # outs))"

subsection \<open>What one pass commits\<close>

text \<open>
  The search of one call has converged when the value it leaves in \<open>y\<close> is at least
  \<open>minGap\<close> away from every entry the side's stack held during the search.
\<close>

definition converged :: "config \<Rightarrow> stacks \<Rightarrow> props \<Rightarrow> bool" where
  "converged cfg st p = gap_clear (minGap cfg) (side_stack cfg st p) (placed_y cfg st p)"

text \<open>
  For each sector of a pass: its side, the y pushed on that side's stack, whether its search
  converged, and the y of the returned element.
\<close>

record placement =
  p_right :: bool
  p_committed :: real
  p_converged :: bool
  p_rendered :: real

fun placements :: "config \<Rightarrow> stacks \<Rightarrow> props list \<Rightarrow> placement list" where
  "placements cfg st0 [] = []"
| "placements cfg st0 (p # ps) =
     (let st = reset_stacks st0 p
      in \<lparr>p_right = isRight cfg p,
           p_committed = placed_y cfg st p,
           p_converged = converged cfg st p,
           p_rendered = clamp_y cfg p (placed_y cfg st p)\<rparr>
         # placements cfg (fst (DonutLabel cfg st0 p)) ps)"

subsection \<open>Renderer instances\<close>

text \<open>
  Every call of \<open>makeDonutLabelRenderer\<close> allocates two fresh arrays and returns a closure over
  them and over its three parameters. The store maps the identity of a closure to its arrays.
\<close>

record store =
  next_id :: nat
  arrays :: "nat \<Rightarrow> stacks"

record renderer =
  r_cfg :: config
  r_id :: nat

definition makeDonutLabelRenderer :: "config \<Rightarrow> store \<Rightarrow> renderer \<times> store" where
  "makeDonutLabelRenderer cfg s =
     (\<lparr>r_cfg = cfg, r_id = next_id s\<rparr>,
      \<lparr>next_id = next_id s + 1,
       arrays = (arrays s)(next_id s := \<lparr>usedLeft = [], usedRight = []\<rparr>)\<rparr>)"

definition call_renderer :: "renderer \<Rightarrow> store \<Rightarrow> props \<Rightarrow> store \<times> label option" where
  "call_renderer r s p =
     (let (st', out) = DonutLabel (r_cfg r) (arrays s (r_id r)) p
      in (s\<lparr>arrays := (arrays s)(r_id r := st')\<rparr>, out))"

text \<open>Calls to several renderers in any interleaving; each output is tagged with its renderer.\<close>

fun run_calls :: "store \<Rightarrow> (renderer \<times> props) list \<Rightarrow> (renderer \<times> label option) list" where
  "run_calls s [] = []"
| "run_calls s ((r, p) # cs) =
     (let (s', out) = call_renderer r s p in (r, out) # run_calls s' cs)"

text \<open>The store before any renderer has been made.\<close>

definition init_store :: store where
  "init_store = \<lparr>next_id = 0, arrays = (\<lambda>i. \<lparr>usedLeft = [], usedRight = []\<rparr>)\<rparr>"

definition outputs_of :: "renderer \<Rightarrow> (renderer \<times> 'a) list \<Rightarrow> 'a list" where
  "outputs_of r outs = map snd (filter (\<lambda>c. fst c = r) outs)"

subsection \<open>The threshold rule as the specification words it\<close>

text \<open>Suppress when \<open>percent < 3\<close> and the name is not in the always-show set of the caller.\<close>

definition spec_suppress :: "real \<Rightarrow> string \<Rightarrow> string set \<Rightarrow> bool" where
  "spec_suppress pct nm alwaysShowNames = (pct < 3 \<and> nm \<notin> alwaysShowNames)"

subsection \<open>Example sectors\<close>

text \<open>The stack of one side, chosen by a flag (\<open>True\<close> for the right side).\<close>

definition stack_of :: "bool \<Rightarrow> stacks \<Rightarrow> real list" where
  "stack_of b st = (if b then usedRight st else usedLeft st)"

text \<open>
  A sector whose mid-angle points straight down in screen coordinates
  (\<open>-midAngle * RAD = pi / 2\<close>), on a chart centred at (150, 150) with outer radius 100.
\<close>

definition bottom_sector :: "nat \<Rightarrow> props" where
  "bottom_sector i = \<lparr>cx = 150, cy = 150, midAngle = - 90, outerRadius = 100, percent = 1 / 5,
     name = ''Queued'', pvalue = 7, fill = ''#f59e0b'', index = i\<rparr>"

text \<open>A pass of five such sectors, indexed 0 to 4 by the host.\<close>

definition bottom_pass :: "props list" where
  "bottom_pass = [bottom_sector 0, bottom_sector 1, bottom_sector 2, bottom_sector 3,
     bottom_sector 4]"

text \<open>A sector at mid-angle 0 with a given name, share of the whole and index.\<close>

definition share_sector :: "string \<Rightarrow> real \<Rightarrow> nat \<Rightarrow> props" where
  "share_sector nm f i = \<lparr>cx = 150, cy = 150, midAngle = 0, outerRadius = 100, percent = f,
     name = nm, pvalue = 3, fill = ''#60a5fa'', index = i\<rparr>"

text \<open>A sector whose mid-angle points to the left (\<open>-midAngle * RAD = - pi\<close>).\<close>

definition left_sector :: props where
  "left_sector = \<lparr>cx = 150, cy = 150, midAngle = 180, outerRadius = 100, percent = 1 / 8,
     name = ''Offered'', pvalue = 12, fill = ''#60a5fa'', index = 0\<rparr>"

text \<open>A sector whose outer radius is 0.\<close>

definition flat_sector :: props where
  "flat_sector = \<lparr>cx = 150, cy = 150, midAngle = 0, outerRadius = 0, percent = 1 / 2,
     name = ''Queued'', pvalue = 3, fill = ''#f59e0b'', index = 0\<rparr>"

text \<open>
  Two renderers made one after the other with the default parameters, and calls to them in
  an interleaved order, each renderer receiving the same two sectors.
\<close>

definition first_renderer :: renderer where
  "first_renderer = fst (makeDonutLabelRenderer default_config init_store)"

definition second_renderer :: renderer where
  "second_renderer =
     fst (makeDonutLabelRenderer default_config
            (snd (makeDonutLabelRenderer default_config init_store)))"

definition two_renderers_store :: store where
  "two_renderers_store =
     snd (makeDonutLabelRenderer default_config
            (snd (makeDonutLabelRenderer default_config init_store)))"

definition interleaved_calls :: "(renderer \<times> props) list" where
  "interleaved_calls =
     [(first_renderer, bottom_sector 0), (second_renderer, bottom_sector 0),
      (second_renderer, bottom_sector 1), (first_renderer, bottom_sector 1)]"

section \<open>Properties\<close>

subsection \<open>One call\<close>

lemma DonutLabel_fst:
  "fst (DonutLabel cfg st0 p) =
     push_y cfg (reset_stacks st0 p) p (placed_y cfg (reset_stacks st0 p) p)"
  by (simp add: DonutLabel_def Let_def)

lemma DonutLabel_ly:
  "map_option ly (snd (DonutLabel cfg st0 p)) =
     Some (clamp_y cfg p (placed_y cfg (reset_stacks st0 p) p))"
  by (simp add: DonutLabel_def Let_def)

lemma side_stack_stack_of: "side_stack cfg st p = stack_of (isRight cfg p) st"
  by (simp add: side_stack_def stack_of_def)

lemma stack_of_push:
  "stack_of b (push_y cfg st p y) = stack_of b st @ (if isRight cfg p = b then [y] else [])"
  by (simp add: stack_of_def push_y_def)

lemma stack_of_step:
  "index p \<noteq> 0 \<Longrightarrow>
   stack_of b (fst (DonutLabel cfg st p)) =
     stack_of b st @ (if isRight cfg p = b then [placed_y cfg st p] else [])"
  by (simp add: DonutLabel_fst stack_of_push reset_stacks_def)

lemma gap_clearD: "gap_clear g stack y \<Longrightarrow> yy \<in> set stack \<Longrightarrow> g \<le> \<bar>yy - y\<bar>"
  by (simp add: gap_clear_def list_all_iff)

lemma placements_length [simp]: "length (placements cfg st ps) = length ps"
  by (induction ps arbitrary: st) (simp_all add: Let_def)

lemma placements_no_reset:
  assumes "\<forall>q\<in>set ps. index q \<noteq> 0" and "j < length ps"
    and "p_converged (placements cfg st ps ! j)"
  shows "(\<forall>y\<in>set (stack_of (p_right (placements cfg st ps ! j)) st).
            minGap cfg \<le> \<bar>y - p_committed (placements cfg st ps ! j)\<bar>)
       \<and> (\<forall>i<j. p_right (placements cfg st ps ! i) = p_right (placements cfg st ps ! j) \<longrightarrow>
            minGap cfg \<le> \<bar>p_committed (placements cfg st ps ! i)
                              - p_committed (placements cfg st ps ! j)\<bar>)"
  using assms
proof (induction ps arbitrary: st j)
  case Nil
  then show ?case by simp
next
  case (Cons p ps)
  from Cons.prems(1) have ip: "index p \<noteq> 0" and rest: "\<forall>q\<in>set ps. index q \<noteq> 0"
    by simp_all
  have rs: "reset_stacks st p = st" using ip by (simp add: reset_stacks_def)
  let ?st1 = "fst (DonutLabel cfg st p)"
  show ?case
  proof (cases j)
    case 0
    with Cons.prems(3) have "gap_clear (minGap cfg) (side_stack cfg st p) (placed_y cfg st p)"
      by (simp add: Let_def rs converged_def)
    then show ?thesis using 0
      by (auto simp: Let_def rs side_stack_stack_of dest: gap_clearD)
  next
    case (Suc j')
    with Cons.prems have j': "j' < length ps"
      and cj: "p_converged (placements cfg ?st1 ps ! j')"
      by (simp_all add: Let_def)
    note IH = Cons.IH[OF rest j' cj]
    let ?b = "p_right (placements cfg ?st1 ps ! j')"
    let ?c = "p_committed (placements cfg ?st1 ps ! j')"
    have st1: "stack_of ?b ?st1 = stack_of ?b st @ (if isRight cfg p = ?b then [placed_y cfg st p] else [])"
      by (rule stack_of_step[OF ip])
    have A: "\<forall>y\<in>set (stack_of ?b st). minGap cfg \<le> \<bar>y - ?c\<bar>"
      using IH st1 by auto
    have B: "isRight cfg p = ?b \<Longrightarrow> minGap cfg \<le> \<bar>placed_y cfg st p - ?c\<bar>"
      using IH st1 by auto
    have C: "\<forall>i<j'. p_right (placements cfg ?st1 ps ! i) = ?b \<longrightarrow>
            minGap cfg \<le> \<bar>p_committed (placements cfg ?st1 ps ! i) - ?c\<bar>"
      using IH by blast
    have D: "minGap cfg \<le> \<bar>p_committed (placements cfg st (p # ps) ! i) - ?c\<bar>"
      if "i < j" "p_right (placements cfg st (p # ps) ! i) = ?b" for i
    proof (cases i)
      case 0
      with that(2) B show ?thesis by (simp add: Let_def rs)
    next
      case (Suc i')
      with that Suc \<open>j = Suc j'\<close> C show ?thesis by (simp add: Let_def)
    qed
    show ?thesis using A D Suc by (simp add: Let_def)
  qed
qed

lemma placements_pass_later:
  assumes "\<forall>q\<in>set (tl ps). index q \<noteq> 0" and "i < j" and "j < length ps"
    and "p_right (placements cfg st ps ! i) = p_right (placements cfg st ps ! j)"
    and "p_converged (placements cfg st ps ! j)"
  shows "minGap cfg \<le> \<bar>p_committed (placements cfg st ps ! i)
                              - p_committed (placements cfg st ps ! j)\<bar>"
proof (cases ps)
  case Nil
  with assms(3) show ?thesis by simp
next
  case (Cons p qs)
  let ?st1 = "fst (DonutLabel cfg st p)"
  from assms(1) Cons have rest: "\<forall>q\<in>set qs. index q \<noteq> 0" by simp
  from assms(2) obtain j' where j: "j = Suc j'" by (cases j) auto
  with assms(3) Cons have j': "j' < length qs" by simp
  from assms(5) Cons j have cj: "p_converged (placements cfg ?st1 qs ! j')"
    by (simp add: Let_def)
  note L = placements_no_reset[OF rest j' cj]
  show ?thesis
  proof (cases i)
    case 0
    let ?b = "p_right (placements cfg ?st1 qs ! j')"
    from assms(4) Cons j 0 have side: "isRight cfg p = ?b" by (simp add: Let_def)
    have "placed_y cfg (reset_stacks st p) p \<in> set (stack_of ?b ?st1)"
      using side by (simp add: DonutLabel_fst stack_of_push)
    with L have "minGap cfg \<le> \<bar>placed_y cfg (reset_stacks st p) p
        - p_committed (placements cfg ?st1 qs ! j')\<bar>" by blast
    then show ?thesis using Cons j 0 by (simp add: Let_def)
  next
    case (Suc i')
    with assms(2) j have "i' < j'" by simp
    moreover from assms(4) Cons j Suc
    have "p_right (placements cfg ?st1 qs ! i') = p_right (placements cfg ?st1 qs ! j')"
      by (simp add: Let_def)
    ultimately show ?thesis using L Cons j Suc by (simp add: Let_def)
  qed
qed

subsection \<open>A pass\<close>

lemma render_pass_snd:
  "snd (render_pass cfg st (p # ps)) =
     snd (DonutLabel cfg st p) # snd (render_pass cfg (fst (DonutLabel cfg st p)) ps)"
  by (simp add: Let_def split: prod.splits)

lemma render_pass_fst:
  "fst (render_pass cfg st (p # ps)) = fst (render_pass cfg (fst (DonutLabel cfg st p)) ps)"
  by (simp add: Let_def split: prod.splits)

lemma rendered_is_label_y:
  "map (map_option ly) (snd (render_pass cfg st ps)) =
     map (\<lambda>pl. Some (p_rendered pl)) (placements cfg st ps)"
proof (induction ps arbitrary: st)
  case Nil
  show ?case by simp
next
  case (Cons p ps)
  show ?case
    by (simp only: render_pass_snd list.map Cons.IH DonutLabel_ly placements.simps Let_def
        placement.simps)
qed

subsection \<open>The example pass, evaluated\<close>

lemma bottom_index: "index (bottom_sector i) = i"
  by (simp add: bottom_sector_def)

lemma default_minGap: "minGap default_config = 16"
  by (simp add: default_config_def)

lemma bottom_cand_x: "cand_x default_config (bottom_sector i) = 150"
  by (simp add: cand_x_def bottom_sector_def default_config_def RAD_def)

lemma bottom_cand_y: "cand_y default_config (bottom_sector i) = 272"
  by (simp add: cand_y_def bottom_sector_def default_config_def RAD_def)

lemma bottom_isRight: "isRight default_config (bottom_sector i)"
  by (simp add: isRight_def bottom_cand_x) (simp add: bottom_sector_def)

lemma bottom_dir: "dir_of default_config (bottom_sector i) = 1"
  by (simp add: dir_of_def bottom_cand_y) (simp add: bottom_sector_def)

lemma bottom_placed:
  "placed_y default_config st (bottom_sector i) = separate 16 1 (usedRight st) 0 272"
  by (simp add: placed_y_def side_stack_def bottom_isRight bottom_dir bottom_cand_y)
     (simp add: default_config_def)

lemma bottom_converged:
  "converged default_config st (bottom_sector i) =
     gap_clear 16 (usedRight st) (separate 16 1 (usedRight st) 0 272)"
  by (simp add: converged_def side_stack_def bottom_isRight bottom_placed)
     (simp add: default_config_def)

lemma bottom_clamp:
  "clamp_y default_config (bottom_sector i) y =
     (if y < - 12 then - 12 else if y > 312 then 312 else y)"
  by (simp add: clamp_y_def yLimit_def default_config_def bottom_sector_def Let_def)

lemma bottom_step:
  "fst (DonutLabel default_config st (bottom_sector i)) =
     (if i = 0 then \<lparr>usedLeft = [], usedRight = [separate 16 1 [] 0 272]\<rparr>
      else st\<lparr>usedRight := usedRight st @ [separate 16 1 (usedRight st) 0 272]\<rparr>)"
  by (simp add: DonutLabel_fst push_y_def bottom_isRight bottom_placed reset_stacks_def)
     (simp add: bottom_sector_def)

lemma bottom_searches:
  "separate 16 1 [] 0 272 = 272"
  "separate 16 1 [272] 0 272 = 288"
  "separate 16 1 [272, 288] 0 272 = 304"
  "separate 16 1 [272, 288, 304] 0 272 = 320"
  "separate 16 1 [272, 288, 304, 320] 0 272 = 336"
  by (simp_all add: separate.simps gap_clear_def)

lemma bottom_pass_placements:
  "placements default_config empty_stacks bottom_pass =
     [\<lparr>p_right = True, p_committed = 272, p_converged = True, p_rendered = 272\<rparr>,
      \<lparr>p_right = True, p_committed = 288, p_converged = True, p_rendered = 288\<rparr>,
      \<lparr>p_right = True, p_committed = 304, p_converged = True, p_rendered = 304\<rparr>,
      \<lparr>p_right = True, p_committed = 320, p_converged = True, p_rendered = 312\<rparr>,
      \<lparr>p_right = True, p_committed = 336, p_converged = True, p_rendered = 312\<rparr>]"
  by (simp add: bottom_pass_def empty_stacks_def Let_def bottom_step bottom_isRight
      bottom_placed bottom_converged bottom_clamp bottom_searches reset_stacks_def gap_clear_def
      bottom_index)

subsection \<open>The search, the clamps and the returned element\<close>


lemma side_stack_push:
  "side_stack cfg (push_y cfg st p y) p = side_stack cfg st p @ [y]"
  by (simp add: side_stack_def push_y_def)

lemma clamp_y_band:
  "0 \<le> yLimit cfg p \<Longrightarrow>
   cy p - yLimit cfg p \<le> clamp_y cfg p y \<and> clamp_y cfg p y \<le> cy p + yLimit cfg p"
  by (simp add: clamp_y_def Let_def)

lemma DonutLabel_snd:
  "\<exists>l. snd (DonutLabel cfg st p) = Some l
     \<and> ly l = clamp_y cfg p (placed_y cfg (reset_stacks st p) p)
     \<and> lx l = cand_x cfg p \<and> lx1 l = leader_x cfg p \<and> ltext l = textOut cfg p"
  by (simp add: DonutLabel_def Let_def)

lemma leader_x_band:
  "0 \<le> outerRadius p + extraRadius cfg + 20 \<Longrightarrow>
   xMin cfg p \<le> leader_x cfg p \<and> leader_x cfg p \<le> xMax cfg p"
  by (simp add: leader_x_def xMin_def xMax_def Let_def)

lemma bottom_fields:
  "cx (bottom_sector i) = 150" "cy (bottom_sector i) = 150"
  "outerRadius (bottom_sector i) = 100" "midAngle (bottom_sector i) = - 90"
  by (simp_all add: bottom_sector_def)

lemma default_fields:
  "extraRadius default_config = 22" "showValue default_config"
  by (simp_all add: default_config_def)

subsection \<open>The reset\<close>

lemma reset_stacks_first: "index p = 0 \<Longrightarrow> reset_stacks st p = empty_stacks"
  by (simp add: reset_stacks_def empty_stacks_def)

lemma reset_stacks_later: "index p \<noteq> 0 \<Longrightarrow> reset_stacks st p = st"
  by (simp add: reset_stacks_def)

lemma DonutLabel_first:
  "index p = 0 \<Longrightarrow> DonutLabel cfg st p = DonutLabel cfg empty_stacks p"
  by (simp add: DonutLabel_def reset_stacks_def)

lemma push_y_keeps:
  "(\<exists>ys. usedLeft (push_y cfg st p y) = usedLeft st @ ys)
   \<and> (\<exists>ys. usedRight (push_y cfg st p y) = usedRight st @ ys)"
  by (simp add: push_y_def)

lemma render_pass_keeps:
  "\<forall>q\<in>set ps. index q \<noteq> 0 \<Longrightarrow>
   (\<exists>ys. usedLeft (fst (render_pass cfg st ps)) = usedLeft st @ ys)
   \<and> (\<exists>ys. usedRight (fst (render_pass cfg st ps)) = usedRight st @ ys)"
proof (induction ps arbitrary: st)
  case Nil
  show ?case by simp
next
  case (Cons p ps)
  let ?st1 = "fst (DonutLabel cfg st p)"
  from Cons.prems have ip: "index p \<noteq> 0" and rest: "\<forall>q\<in>set ps. index q \<noteq> 0" by simp_all
  have s1: "?st1 = push_y cfg st p (placed_y cfg st p)"
    by (simp add: DonutLabel_fst reset_stacks_later[OF ip])
  from push_y_keeps[of cfg st p "placed_y cfg st p"] s1
  obtain l1 r1 where 1: "usedLeft ?st1 = usedLeft st @ l1" "usedRight ?st1 = usedRight st @ r1"
    by auto
  from Cons.IH[OF rest, of ?st1]
  obtain l2 r2 where 2: "usedLeft (fst (render_pass cfg ?st1 ps)) = usedLeft ?st1 @ l2"
    "usedRight (fst (render_pass cfg ?st1 ps)) = usedRight ?st1 @ r2"
    by auto
  show ?case
    by (simp only: render_pass_fst 1 2 append_assoc) blast
qed

lemma render_pass_first:
  "ps \<noteq> [] \<Longrightarrow> index (hd ps) = 0 \<Longrightarrow> render_pass cfg st ps = render_pass cfg empty_stacks ps"
  by (cases ps) (simp_all add: DonutLabel_first[of _ cfg st])

subsection \<open>The label text\<close>

lemma or_zero_id: "or_zero x = x"
  by (simp add: or_zero_def)

subsection \<open>Suppression\<close>

lemma renderDonutLabel_None:
  "(renderDonutLabel p = None) =
     (or_zero (percent p) * 100 < 3 \<and> name p \<noteq> ''Completed'' \<and> name p \<noteq> ''In Progress'')"
  by (auto simp: renderDonutLabel_def Let_def)

lemma share_fields:
  "percent (share_sector nm f i) = f" "name (share_sector nm f i) = nm"
  by (simp_all add: share_sector_def)

lemma render_pass_all_Some:
  "length (snd (render_pass cfg st ps)) = length ps \<and> None \<notin> set (snd (render_pass cfg st ps))"
proof (induction ps arbitrary: st)
  case Nil
  show ?case by simp
next
  case (Cons p ps)
  from DonutLabel_snd[of cfg st p] Cons.IH[of "fst (DonutLabel cfg st p)"]
  show ?case by (auto simp: render_pass_snd simp del: render_pass.simps)
qed

subsection \<open>Renderer instances\<close>

lemma call_renderer_out:
  "snd (call_renderer r s p) = snd (DonutLabel (r_cfg r) (arrays s (r_id r)) p)"
  by (simp add: call_renderer_def split: prod.splits)

lemma call_renderer_arrays:
  "arrays (fst (call_renderer r s p)) i =
     (if i = r_id r then fst (DonutLabel (r_cfg r) (arrays s (r_id r)) p) else arrays s i)"
  by (simp add: call_renderer_def split: prod.splits)

lemma run_calls_Cons:
  "run_calls s ((r, p) # cs) =
     (r, snd (call_renderer r s p)) # run_calls (fst (call_renderer r s p)) cs"
  by (simp add: Let_def split: prod.splits)

lemma outputs_of_isolated:
  assumes "\<forall>c\<in>set cs. fst c \<noteq> a \<longrightarrow> r_id (fst c) \<noteq> r_id a"
  shows "outputs_of a (run_calls s cs) =
     snd (render_pass (r_cfg a) (arrays s (r_id a)) (map snd (filter (\<lambda>c. fst c = a) cs)))"
  using assms
proof (induction cs arbitrary: s)
  case Nil
  show ?case by (simp add: outputs_of_def)
next
  case (Cons c cs)
  obtain r p where c: "c = (r, p)" by (cases c)
  from Cons.prems have rest: "\<forall>c\<in>set cs. fst c \<noteq> a \<longrightarrow> r_id (fst c) \<noteq> r_id a" by simp
  note IH = Cons.IH[OF rest, of "fst (call_renderer r s p)"]
  show ?case
  proof (cases "r = a")
    case True
    have "outputs_of a (run_calls s (c # cs)) =
        snd (call_renderer a s p) # outputs_of a (run_calls (fst (call_renderer a s p)) cs)"
      by (simp add: c True run_calls_Cons outputs_of_def del: run_calls.simps)
    also have "\<dots> = snd (DonutLabel (r_cfg a) (arrays s (r_id a)) p)
        # snd (render_pass (r_cfg a) (fst (DonutLabel (r_cfg a) (arrays s (r_id a)) p))
            (map snd (filter (\<lambda>c. fst c = a) cs)))"
      using IH by (simp add: True call_renderer_out call_renderer_arrays)
    finally show ?thesis
      by (simp add: c True render_pass_snd del: render_pass.simps)
  next
    case False
    with Cons.prems c have ne: "r_id r \<noteq> r_id a" by simp
    have "outputs_of a (run_calls s (c # cs)) =
        outputs_of a (run_calls (fst (call_renderer r s p)) cs)"
      using False by (simp add: c run_calls_Cons outputs_of_def del: run_calls.simps)
    also have "\<dots> = snd (render_pass (r_cfg a) (arrays s (r_id a))
        (map snd (filter (\<lambda>c. fst c = a) cs)))"
      using IH ne by (simp add: call_renderer_arrays)
    finally show ?thesis using False by (simp add: c)
  qed
qed

lemma bottom_two_rendered:
  "map (map_option ly)
     (snd (render_pass default_config empty_stacks [bottom_sector 0, bottom_sector 1]))
   = [Some 272, Some 288]"
  by (simp add: rendered_is_label_y Let_def bottom_placed bottom_clamp bottom_searches
      bottom_index reset_stacks_def empty_stacks_def bottom_step del: render_pass.simps(2))

subsection \<open>What the stacks hold after a pass\<close>

text \<open>
  In a pass without a reset each stack grows by the committed values of its side, in the order
  of the sectors.
\<close>

lemma committed_is_pushed:
  "\<forall>q\<in>set ps. index q \<noteq> 0 \<Longrightarrow>
   stack_of b (fst (render_pass cfg st ps)) =
     stack_of b st @ map p_committed (filter (\<lambda>pl. p_right pl = b) (placements cfg st ps))"
proof (induction ps arbitrary: st)
  case Nil
  show ?case by simp
next
  case (Cons p ps)
  from Cons.prems have ip: "index p \<noteq> 0" and rest: "\<forall>q\<in>set ps. index q \<noteq> 0" by simp_all
  show ?case
    by (simp add: render_pass_fst Cons.IH[OF rest] stack_of_step[OF ip] Let_def
        reset_stacks_later[OF ip] del: render_pass.simps)
qed

subsection \<open>Rounding and decimal numerals\<close>








lemma left_fields:
  "cx left_sector = 150" "cy left_sector = 150" "outerRadius left_sector = 100"
  "midAngle left_sector = 180"
  by (simp_all add: left_sector_def)

section \<open>The claims\<close>

text \<open>
  C1. For any two labels committed to the same side within one render pass, if the bounded
  displacement search converges for each of them, their y-coordinates differ by at least
  \<open>minGap\<close>. This holds for the y-coordinates committed to the stack (the values before
  the clamp), in a pass in which no sector after the first carries index 0, and hence for the
  rendered y-coordinates of two labels that the clamp leaves unchanged.
\<close>

theorem committed_gap:
  assumes "\<forall>q\<in>set (tl ps). index q \<noteq> 0"
    and "i < length ps" and "j < length ps" and "i \<noteq> j"
    and "p_right (placements cfg st ps ! i) = p_right (placements cfg st ps ! j)"
    and "p_converged (placements cfg st ps ! i)"
    and "p_converged (placements cfg st ps ! j)"
  shows "minGap cfg \<le> \<bar>p_committed (placements cfg st ps ! i)
                          - p_committed (placements cfg st ps ! j)\<bar>
       \<and> (p_rendered (placements cfg st ps ! i) = p_committed (placements cfg st ps ! i)
          \<and> p_rendered (placements cfg st ps ! j) = p_committed (placements cfg st ps ! j)
          \<longrightarrow> minGap cfg \<le> \<bar>p_rendered (placements cfg st ps ! i)
                                - p_rendered (placements cfg st ps ! j)\<bar>)"
proof -
  have "minGap cfg \<le> \<bar>p_committed (placements cfg st ps ! i)
                          - p_committed (placements cfg st ps ! j)\<bar>"
  proof (cases "i < j")
    case True
    from placements_pass_later[OF assms(1) True assms(3) assms(5) assms(7)]
    show ?thesis .
  next
    case False
    with assms(4) have ji: "j < i" by simp
    from placements_pass_later[OF assms(1) ji assms(2) assms(5)[symmetric] assms(6)]
    show ?thesis by (simp add: abs_minus_commute)
  qed
  then show ?thesis by simp
qed

theorem committed_gap_witness:
  "minGap default_config \<le>
     \<bar>p_committed (placements default_config empty_stacks bottom_pass ! 0)
      - p_committed (placements default_config empty_stacks bottom_pass ! 1)\<bar>
   \<and> p_committed (placements default_config empty_stacks bottom_pass ! 0) = 272
   \<and> p_committed (placements default_config empty_stacks bottom_pass ! 1) = 288"
proof -
  have idx: "\<forall>q\<in>set (tl bottom_pass). index q \<noteq> 0"
    by (simp add: bottom_pass_def bottom_sector_def)
  have len: "0 < length bottom_pass" "1 < length bottom_pass"
    by (simp_all add: bottom_pass_def)
  have ne: "(0::nat) \<noteq> 1" by simp
  have side: "p_right (placements default_config empty_stacks bottom_pass ! 0)
      = p_right (placements default_config empty_stacks bottom_pass ! 1)"
    by (simp add: bottom_pass_placements)
  have c0: "p_converged (placements default_config empty_stacks bottom_pass ! 0)"
    and c1: "p_converged (placements default_config empty_stacks bottom_pass ! 1)"
    by (simp_all add: bottom_pass_placements)
  from committed_gap[OF idx len ne side c0 c1]
  show ?thesis by (simp add: bottom_pass_placements default_minGap)
qed

text \<open>
  C1 fails for the rendered y-coordinates: in the example pass the fourth and the fifth label
  are on the same side, both searches converge (at 320 and 336), and both labels are rendered
  at y = 312, the boundary \<open>cy + yLimit\<close> of the band.
\<close>

theorem rendered_gap_counterexample:
  "p_right (placements default_config empty_stacks bottom_pass ! 3)
     = p_right (placements default_config empty_stacks bottom_pass ! 4)
   \<and> p_converged (placements default_config empty_stacks bottom_pass ! 3)
   \<and> p_converged (placements default_config empty_stacks bottom_pass ! 4)
   \<and> map (map_option ly) (snd (render_pass default_config empty_stacks bottom_pass))
       = [Some 272, Some 288, Some 304, Some 312, Some 312]
   \<and> \<not> minGap default_config
         \<le> \<bar>p_rendered (placements default_config empty_stacks bottom_pass ! 3)
            - p_rendered (placements default_config empty_stacks bottom_pass ! 4)\<bar>"
  by (simp add: rendered_is_label_y bottom_pass_placements default_minGap)

text \<open>
  C2. \<open>renderDonutLabel\<close> returns nothing for a sector exactly when its percentage (the
  fraction times 100) is below 3 and its name is neither \<open>Completed\<close> nor \<open>In Progress\<close>:
  the always-show names are fixed in the function. The closure of
  \<open>makeDonutLabelRenderer\<close> suppresses nothing. Of sectors with percentages 50, 30, 15 and 5
  all are shown by \<open>renderDonutLabel\<close>, and an added sector of 2 percent with another name
  is suppressed by it.
\<close>

theorem threshold_rule:
  "(renderDonutLabel p = None) =
     (percent p * 100 < 3 \<and> name p \<notin> {''Completed'', ''In Progress''})
   \<and> snd (DonutLabel cfg st p) \<noteq> None
   \<and> renderDonutLabel (share_sector ''Queued'' (50 / 100) 0) \<noteq> None
   \<and> renderDonutLabel (share_sector ''Offered'' (30 / 100) 1) \<noteq> None
   \<and> renderDonutLabel (share_sector ''In Progress'' (15 / 100) 2) \<noteq> None
   \<and> renderDonutLabel (share_sector ''Cancelled'' (5 / 100) 3) \<noteq> None
   \<and> renderDonutLabel (share_sector ''Failed'' (2 / 100) 4) = None"
  using DonutLabel_snd[of cfg st p]
  by (auto simp: renderDonutLabel_None or_zero_id share_fields)

theorem threshold_rule_witness:
  "renderDonutLabel (share_sector ''Completed'' (2 / 100) 4) \<noteq> None
   \<and> renderDonutLabel (share_sector ''Failed'' (2 / 100) 4) = None
   \<and> snd (DonutLabel default_config empty_stacks (share_sector ''Failed'' (2 / 100) 4)) \<noteq> None"
  using threshold_rule[of "share_sector ''Completed'' (2 / 100) 4" default_config empty_stacks]
    threshold_rule[of "share_sector ''Failed'' (2 / 100) 4" default_config empty_stacks]
  by (simp add: share_fields)

text \<open>
  C2 fails as stated: with an empty always-show set a sector of 2 percent named
  \<open>Completed\<close> is to be suppressed, and \<open>renderDonutLabel\<close> shows it; a sector of 2 percent
  named \<open>Failed\<close> is to be suppressed, and the closure of the default renderer shows it.
\<close>

theorem threshold_counterexample:
  "spec_suppress (percent (share_sector ''Completed'' (2 / 100) 4) * 100)
      (name (share_sector ''Completed'' (2 / 100) 4)) {}
   \<and> renderDonutLabel (share_sector ''Completed'' (2 / 100) 4) \<noteq> None
   \<and> spec_suppress (percent (share_sector ''Failed'' (2 / 100) 4) * 100)
      (name (share_sector ''Failed'' (2 / 100) 4)) {}
   \<and> snd (DonutLabel default_config empty_stacks (share_sector ''Failed'' (2 / 100) 4)) \<noteq> None"
  using DonutLabel_snd[of default_config empty_stacks "share_sector ''Failed'' (2 / 100) 4"]
  by (auto simp: spec_suppress_def share_fields renderDonutLabel_None or_zero_id)

text \<open>
  C3. The closure does not check its geometry inputs. For every sector, also one whose outer
  radius is not positive, it evaluates the cosine and the sine of the mid-angle and returns a
  label; no call fails, so every sector of a pass gets its label.
\<close>

theorem every_sector_labelled:
  "(\<exists>l. snd (DonutLabel cfg st p) = Some l
      \<and> lx0 l = cx p + outerRadius p * cos (- midAngle p * RAD)
      \<and> ly0 l = cy p + outerRadius p * sin (- midAngle p * RAD)
      \<and> lx l = cx p + (outerRadius p + extraRadius cfg) * cos (- midAngle p * RAD))
   \<and> length (snd (render_pass cfg st ps)) = length ps
   \<and> None \<notin> set (snd (render_pass cfg st ps))"
proof -
  have "\<exists>l. snd (DonutLabel cfg st p) = Some l
      \<and> lx0 l = cx p + outerRadius p * cos (- midAngle p * RAD)
      \<and> ly0 l = cy p + outerRadius p * sin (- midAngle p * RAD)
      \<and> lx l = cx p + (outerRadius p + extraRadius cfg) * cos (- midAngle p * RAD)"
    by (simp add: DonutLabel_def Let_def cand_x_def)
  with render_pass_all_Some[of cfg st ps] show ?thesis by blast
qed

theorem every_sector_labelled_witness:
  "(\<exists>l. snd (DonutLabel default_config empty_stacks flat_sector) = Some l
      \<and> lx0 l = 150 \<and> ly0 l = 150 \<and> lx l = 172)
   \<and> length (snd (render_pass default_config empty_stacks [flat_sector, bottom_sector 1])) = 2
   \<and> None \<notin> set (snd (render_pass default_config empty_stacks [flat_sector, bottom_sector 1]))"
  using every_sector_labelled[of default_config empty_stacks flat_sector
      "[flat_sector, bottom_sector 1]"]
  by (simp add: flat_sector_def default_fields del: render_pass.simps)

text \<open>
  C3 fails as stated: a sector with outer radius 0 is not omitted. Its label is returned at
  (172, 150) with its text.
\<close>

theorem unplaceable_counterexample:
  "\<not> outerRadius flat_sector > 0
   \<and> map_option lx (snd (DonutLabel default_config empty_stacks flat_sector)) = Some 172
   \<and> map_option ly (snd (DonutLabel default_config empty_stacks flat_sector)) = Some 150
   \<and> map_option ltext (snd (DonutLabel default_config empty_stacks flat_sector))
       = Some ''Queued 50% (3)''"
  by (simp add: DonutLabel_def Let_def flat_sector_def default_config_def cand_x_def
      clamp_y_def yLimit_def placed_y_def side_stack_def isRight_def reset_stacks_def
      cand_y_def dir_of_def separate.simps gap_clear_def textOut_def or_zero_def
      math_round_def int_str_def nat_str.simps digit_char_def)



text \<open>
  C5. Every label of a pass is returned with its y inside
  \<open>[cy - yLimit, cy + yLimit]\<close>, \<open>yLimit = outerRadius + extraRadius + 40\<close>, whatever the
  stacks held and however far the search displaced it. The band is an interval when
  \<open>yLimit\<close> is not negative, which every sector with a positive outer radius gives under a
  configuration with \<open>extraRadius \<ge> - 40\<close>.
\<close>

theorem label_y_in_band:
  assumes "\<forall>p\<in>set ps. 0 \<le> outerRadius p + extraRadius cfg + 40"
  shows "list_all2
     (\<lambda>p out. \<exists>l. out = Some l
        \<and> cy p - (outerRadius p + extraRadius cfg + 40) \<le> ly l
        \<and> ly l \<le> cy p + (outerRadius p + extraRadius cfg + 40))
     ps (snd (render_pass cfg st ps))"
  using assms
proof (induction ps arbitrary: st)
  case Nil
  show ?case by simp
next
  case (Cons p ps)
  from Cons.prems have p: "0 \<le> yLimit cfg p" and rest: "\<forall>p\<in>set ps. 0 \<le> outerRadius p + extraRadius cfg + 40"
    by (simp_all add: yLimit_def)
  obtain l where l: "snd (DonutLabel cfg st p) = Some l"
    "ly l = clamp_y cfg p (placed_y cfg (reset_stacks st p) p)"
    using DonutLabel_snd by blast
  from clamp_y_band[OF p] l(2)
  have "cy p - (outerRadius p + extraRadius cfg + 40) \<le> ly l
        \<and> ly l \<le> cy p + (outerRadius p + extraRadius cfg + 40)"
    by (simp add: yLimit_def)
  with l(1) Cons.IH[OF rest] show ?case
    by (simp add: render_pass_snd del: render_pass.simps)
qed

theorem label_y_in_band_witness:
  "list_all2
     (\<lambda>p out. \<exists>l. out = Some l
        \<and> cy p - (outerRadius p + extraRadius default_config + 40) \<le> ly l
        \<and> ly l \<le> cy p + (outerRadius p + extraRadius default_config + 40))
     bottom_pass (snd (render_pass default_config empty_stacks bottom_pass))
   \<and> map (map_option ly) (snd (render_pass default_config empty_stacks bottom_pass))
       = [Some 272, Some 288, Some 304, Some 312, Some 312]
   \<and> cy (bottom_sector 4) + (outerRadius (bottom_sector 4) + extraRadius default_config + 40)
       = 312"
proof -
  have h: "\<forall>p\<in>set bottom_pass. 0 \<le> outerRadius p + extraRadius default_config + 40"
    by (simp add: bottom_pass_def bottom_sector_def default_config_def)
  from label_y_in_band[OF h, of empty_stacks]
  show ?thesis
    by (simp add: rendered_is_label_y bottom_pass_placements)
       (simp add: bottom_sector_def default_config_def)
qed

text \<open>
  C6. The leader line ends at \<open>x + leaderLen\<close> for a label on the right side (\<open>x \<ge> cx\<close>)
  and at \<open>x - leaderLen\<close> for a label on the left side (\<open>x < cx\<close>), with
  \<open>leaderLen = 10\<close> and \<open>x\<close> the x of the outside point, clamped by the two assignments
  of the source, which is the clamp into
  \<open>[cx - outerRadius - extraRadius - 20, cx + outerRadius + extraRadius + 20]\<close> when that
  interval is not empty. The text is anchored at its start six pixels right of the end on the
  right side, and at its end six pixels left of it on the left side. With \<open>cx = cy = 150\<close>,
  \<open>outerRadius = 100\<close> and \<open>extraRadius = 22\<close> the end lies in \<open>[150 - 142, 150 + 142]\<close>
  for every mid-angle, so for each of the degrees 0 to 359.
\<close>

theorem leader_x_clamped:
  "\<exists>l. snd (DonutLabel cfg st p) = Some l
     \<and> lx l = cx p + (outerRadius p + extraRadius cfg) * cos (- midAngle p * RAD)
     \<and> lx1 l = (if (if lx l \<ge> cx p then lx l + 10 else lx l - 10)
                      > cx p + outerRadius p + extraRadius cfg + 20
                 then (if cx p + outerRadius p + extraRadius cfg + 20
                          < cx p - outerRadius p - extraRadius cfg - 20
                       then cx p - outerRadius p - extraRadius cfg - 20
                       else cx p + outerRadius p + extraRadius cfg + 20)
                 else if (if lx l \<ge> cx p then lx l + 10 else lx l - 10)
                          < cx p - outerRadius p - extraRadius cfg - 20
                 then cx p - outerRadius p - extraRadius cfg - 20
                 else (if lx l \<ge> cx p then lx l + 10 else lx l - 10))
     \<and> lanchor l = (if lx l \<ge> cx p then Start else End)
     \<and> lxText l = (if lx l \<ge> cx p then lx1 l + 6 else lx1 l - 6)
     \<and> (0 \<le> outerRadius p + extraRadius cfg + 20 \<longrightarrow>
          lx1 l = max (cx p - outerRadius p - extraRadius cfg - 20)
                    (min (cx p + outerRadius p + extraRadius cfg + 20)
                       (if lx l \<ge> cx p then lx l + 10 else lx l - 10))
          \<and> cx p - outerRadius p - extraRadius cfg - 20 \<le> lx1 l
          \<and> lx1 l \<le> cx p + outerRadius p + extraRadius cfg + 20)
     \<and> (cx p = 150 \<and> cy p = 150 \<and> outerRadius p = 100 \<and> extraRadius cfg = 22
          \<and> (\<exists>d::nat. d < 360 \<and> midAngle p = real d) \<longrightarrow>
          150 - 142 \<le> lx1 l \<and> lx1 l \<le> 150 + 142)"
proof -
  let ?x = "cand_x cfg p"
  obtain l where l: "snd (DonutLabel cfg st p) = Some l" "lx l = ?x"
    "lx1 l = leader_x cfg p" "lanchor l = (if isRight cfg p then Start else End)"
    "lxText l = (if isRight cfg p then leader_x cfg p + 6 else leader_x cfg p - 6)"
    by (simp add: DonutLabel_def Let_def)
  have side: "isRight cfg p = (?x \<ge> cx p)"
    by (simp add: isRight_def)
  have x: "?x = cx p + (outerRadius p + extraRadius cfg) * cos (- midAngle p * RAD)"
    by (simp add: cand_x_def)
  have a: "leader_x cfg p = (if (if ?x \<ge> cx p then ?x + 10 else ?x - 10)
                      > cx p + outerRadius p + extraRadius cfg + 20
                 then (if cx p + outerRadius p + extraRadius cfg + 20
                          < cx p - outerRadius p - extraRadius cfg - 20
                       then cx p - outerRadius p - extraRadius cfg - 20
                       else cx p + outerRadius p + extraRadius cfg + 20)
                 else if (if ?x \<ge> cx p then ?x + 10 else ?x - 10)
                          < cx p - outerRadius p - extraRadius cfg - 20
                 then cx p - outerRadius p - extraRadius cfg - 20
                 else (if ?x \<ge> cx p then ?x + 10 else ?x - 10))"
    by (simp add: leader_x_def side xMin_def xMax_def leaderLen_def Let_def)
  have b: "leader_x cfg p = max (cx p - outerRadius p - extraRadius cfg - 20)
                    (min (cx p + outerRadius p + extraRadius cfg + 20)
                       (if ?x \<ge> cx p then ?x + 10 else ?x - 10))
          \<and> cx p - outerRadius p - extraRadius cfg - 20 \<le> leader_x cfg p
          \<and> leader_x cfg p \<le> cx p + outerRadius p + extraRadius cfg + 20"
    if "0 \<le> outerRadius p + extraRadius cfg + 20"
    using that by (simp add: leader_x_def side xMin_def xMax_def leaderLen_def Let_def)
  have c: "150 - 142 \<le> leader_x cfg p \<and> leader_x cfg p \<le> 150 + 142"
    if "cx p = 150" "outerRadius p = 100" "extraRadius cfg = 22"
    using leader_x_band[of p cfg] that by (simp add: xMin_def xMax_def)
  have d: "lanchor l = (if ?x \<ge> cx p then Start else End)"
    "lxText l = (if ?x \<ge> cx p then leader_x cfg p + 6 else leader_x cfg p - 6)"
    using l(4,5) by (simp_all add: side)
  show ?thesis
    apply (rule exI[of _ l])
    apply (simp only: l(1,2,3) d)
    using a b c x by blast
qed

theorem leader_x_clamped_witness:
  "(\<exists>l. snd (DonutLabel default_config empty_stacks left_sector) = Some l
      \<and> lx l = 28 \<and> lx1 l = 18 \<and> lanchor l = End \<and> lxText l = 12
      \<and> 8 \<le> lx1 l \<and> lx1 l \<le> 292)
   \<and> (\<exists>l. snd (DonutLabel default_config empty_stacks (share_sector ''Queued'' (1 / 2) 0))
            = Some l
      \<and> lx l = 272 \<and> lx1 l = 282 \<and> lanchor l = Start \<and> lxText l = 288
      \<and> 8 \<le> lx1 l \<and> lx1 l \<le> 292)"
proof -
  have cl: "cos (- midAngle left_sector * RAD) = - 1"
    by (simp add: left_sector_def RAD_def)
  have cr: "cos (- midAngle (share_sector ''Queued'' (1 / 2) 0) * RAD) = 1"
    by (simp add: share_sector_def)
  from leader_x_clamped[of default_config empty_stacks left_sector]
  have L: "\<exists>l. snd (DonutLabel default_config empty_stacks left_sector) = Some l
      \<and> lx l = 28 \<and> lx1 l = 18 \<and> lanchor l = End \<and> lxText l = 12
      \<and> 8 \<le> lx1 l \<and> lx1 l \<le> 292"
    by (simp only: cl) (auto simp: left_fields default_fields)
  from leader_x_clamped[of default_config empty_stacks "share_sector ''Queued'' (1 / 2) 0"]
  have R: "\<exists>l. snd (DonutLabel default_config empty_stacks (share_sector ''Queued'' (1 / 2) 0))
            = Some l
      \<and> lx l = 272 \<and> lx1 l = 282 \<and> lanchor l = Start \<and> lxText l = 288
      \<and> 8 \<le> lx1 l \<and> lx1 l \<le> 292"
    by (simp only: cr) (auto simp: share_sector_def default_fields)
  from L R show ?thesis by (rule conjI)
qed

text \<open>
  C7. The stacks are cleared when, and only when, the processed sector carries index 0. A call
  with index 0 behaves as if the stacks were empty, so a pass whose first sector has index 0
  and whose later sectors have other indices is cleared once, before its first sector, and does
  not depend on the stacks left by the previous pass. A call with any other index searches
  and extends the stacks it finds: in a pass without a sector of index 0 the entries of the
  previous pass stay on both stacks.
\<close>

theorem reset_at_index_zero:
  "(index p = 0 \<longrightarrow>
      DonutLabel cfg st p = DonutLabel cfg empty_stacks p
      \<and> fst (DonutLabel cfg st p) = push_y cfg empty_stacks p (placed_y cfg empty_stacks p))
   \<and> (index p \<noteq> 0 \<longrightarrow>
      fst (DonutLabel cfg st p) = push_y cfg st p (placed_y cfg st p))
   \<and> (ps \<noteq> [] \<and> index (hd ps) = 0 \<and> (\<forall>q\<in>set (tl ps). index q \<noteq> 0) \<longrightarrow>
      render_pass cfg st ps = render_pass cfg empty_stacks ps
      \<and> (\<exists>ys. usedLeft (fst (render_pass cfg st ps))
                 = usedLeft (fst (DonutLabel cfg empty_stacks (hd ps))) @ ys)
      \<and> (\<exists>ys. usedRight (fst (render_pass cfg st ps))
                 = usedRight (fst (DonutLabel cfg empty_stacks (hd ps))) @ ys))
   \<and> ((\<forall>q\<in>set ps. index q \<noteq> 0) \<longrightarrow>
      (\<exists>ys. usedLeft (fst (render_pass cfg st ps)) = usedLeft st @ ys)
      \<and> (\<exists>ys. usedRight (fst (render_pass cfg st ps)) = usedRight st @ ys))"
proof -
  have a: "DonutLabel cfg st p = DonutLabel cfg empty_stacks p
      \<and> fst (DonutLabel cfg st p) = push_y cfg empty_stacks p (placed_y cfg empty_stacks p)"
    if "index p = 0"
    using that by (simp add: DonutLabel_first[of p cfg st] DonutLabel_fst reset_stacks_first)
  have b: "fst (DonutLabel cfg st p) = push_y cfg st p (placed_y cfg st p)" if "index p \<noteq> 0"
    using that by (simp add: DonutLabel_fst reset_stacks_later)
  have c: "render_pass cfg st ps = render_pass cfg empty_stacks ps
      \<and> (\<exists>ys. usedLeft (fst (render_pass cfg st ps))
                 = usedLeft (fst (DonutLabel cfg empty_stacks (hd ps))) @ ys)
      \<and> (\<exists>ys. usedRight (fst (render_pass cfg st ps))
                 = usedRight (fst (DonutLabel cfg empty_stacks (hd ps))) @ ys)"
    if "ps \<noteq> []" "index (hd ps) = 0" "\<forall>q\<in>set (tl ps). index q \<noteq> 0"
  proof -
    from that(1) obtain q qs where ps: "ps = q # qs" by (cases ps) auto
    with that have q: "index q = 0" and qs: "\<forall>q\<in>set qs. index q \<noteq> 0" by simp_all
    have 1: "render_pass cfg st ps = render_pass cfg empty_stacks ps"
      by (rule render_pass_first[OF that(1,2)])
    have 2: "fst (render_pass cfg empty_stacks ps)
        = fst (render_pass cfg (fst (DonutLabel cfg empty_stacks q)) qs)"
      by (simp only: ps render_pass_fst)
    from render_pass_keeps[OF qs, of cfg "fst (DonutLabel cfg empty_stacks q)"]
    show ?thesis by (simp only: 1 2) (simp add: ps)
  qed
  from a b c render_pass_keeps[of ps cfg st] show ?thesis by blast
qed

theorem reset_at_index_zero_witness:
  "render_pass default_config \<lparr>usedLeft = [], usedRight = [272]\<rparr> [bottom_sector 0]
     = render_pass default_config empty_stacks [bottom_sector 0]
   \<and> map (map_option ly)
        (snd (render_pass default_config empty_stacks [bottom_sector 0])) = [Some 272]
   \<and> map (map_option ly)
        (snd (render_pass default_config \<lparr>usedLeft = [], usedRight = [272]\<rparr> [bottom_sector 1]))
       = [Some 288]
   \<and> usedRight
        (fst (render_pass default_config \<lparr>usedLeft = [], usedRight = [272]\<rparr> [bottom_sector 1]))
       = [272, 288]"
proof -
  have h0: "index (bottom_sector 0) = 0" by (simp add: bottom_index)
  have h1: "[bottom_sector 0] \<noteq> [] \<and> index (hd [bottom_sector 0]) = 0
      \<and> (\<forall>q\<in>set (tl [bottom_sector 0]). index q \<noteq> 0)"
    by (simp add: bottom_index)
  from reset_at_index_zero[of "bottom_sector 0" default_config
      "\<lparr>usedLeft = [], usedRight = [272]\<rparr>" "[bottom_sector 0]"] h1
  have "render_pass default_config \<lparr>usedLeft = [], usedRight = [272]\<rparr> [bottom_sector 0]
     = render_pass default_config empty_stacks [bottom_sector 0]"
    by blast
  moreover have "map (map_option ly)
        (snd (render_pass default_config empty_stacks [bottom_sector 0])) = [Some 272]"
    by (simp add: rendered_is_label_y Let_def bottom_placed bottom_clamp bottom_searches
        bottom_index reset_stacks_def empty_stacks_def del: render_pass.simps(2))
  moreover have "map (map_option ly)
        (snd (render_pass default_config \<lparr>usedLeft = [], usedRight = [272]\<rparr> [bottom_sector 1]))
       = [Some 288]"
    by (simp add: rendered_is_label_y Let_def bottom_placed bottom_clamp bottom_searches
        bottom_index reset_stacks_def del: render_pass.simps(2))
  moreover have "usedRight
        (fst (render_pass default_config \<lparr>usedLeft = [], usedRight = [272]\<rparr> [bottom_sector 1]))
       = [272, 288]"
    by (simp add: render_pass_fst bottom_step bottom_searches del: render_pass.simps(2))
  ultimately show ?thesis by blast
qed



text \<open>
  C9. Two renderers made by two calls of \<open>makeDonutLabelRenderer\<close> with the same parameters
  and given the same sectors in the same order return the same list of elements, however their
  calls are interleaved with each other and with calls to renderers made earlier: each list is
  the pass over those sectors from empty stacks. A call changes the arrays of its own closure
  only, and nothing else enters the computation.
\<close>

theorem instances_agree:
  assumes "makeDonutLabelRenderer cfg s0 = (a, s1)"
    and "makeDonutLabelRenderer cfg s1 = (b, s2)"
    and "\<forall>c\<in>set cs. fst c = a \<or> fst c = b \<or> r_id (fst c) < next_id s0"
    and "map snd (filter (\<lambda>c. fst c = a) cs) = ps"
    and "map snd (filter (\<lambda>c. fst c = b) cs) = ps"
  shows "outputs_of a (run_calls s2 cs) = outputs_of b (run_calls s2 cs)
       \<and> outputs_of a (run_calls s2 cs) = snd (render_pass cfg empty_stacks ps)"
proof -
  from assms(1) have a: "a = \<lparr>r_cfg = cfg, r_id = next_id s0\<rparr>"
    and s1: "next_id s1 = Suc (next_id s0)"
    by (auto simp: makeDonutLabelRenderer_def)
  from assms(2) s1 have b: "b = \<lparr>r_cfg = cfg, r_id = Suc (next_id s0)\<rparr>"
    and arr: "arrays s2 (Suc (next_id s0)) = empty_stacks"
    by (auto simp: makeDonutLabelRenderer_def empty_stacks_def)
  from assms(1,2) have arr0: "arrays s2 (next_id s0) = empty_stacks"
    by (auto simp: makeDonutLabelRenderer_def empty_stacks_def)
  have ia: "\<forall>c\<in>set cs. fst c \<noteq> a \<longrightarrow> r_id (fst c) \<noteq> r_id a"
    using assms(3) by (auto simp: a b)
  have ib: "\<forall>c\<in>set cs. fst c \<noteq> b \<longrightarrow> r_id (fst c) \<noteq> r_id b"
    using assms(3) by (auto simp: a b)
  have "outputs_of a (run_calls s2 cs) = snd (render_pass cfg empty_stacks ps)"
    using outputs_of_isolated[OF ia, of s2] assms(4) by (simp add: a arr0)
  moreover have "outputs_of b (run_calls s2 cs) = snd (render_pass cfg empty_stacks ps)"
    using outputs_of_isolated[OF ib, of s2] assms(5) by (simp add: b arr)
  ultimately show ?thesis by simp
qed

theorem instances_agree_witness:
  "outputs_of first_renderer (run_calls two_renderers_store interleaved_calls)
     = outputs_of second_renderer (run_calls two_renderers_store interleaved_calls)
   \<and> map (map_option ly)
        (outputs_of first_renderer (run_calls two_renderers_store interleaved_calls))
     = [Some 272, Some 288]"
proof -
  have m1: "makeDonutLabelRenderer default_config init_store
      = (first_renderer, snd (makeDonutLabelRenderer default_config init_store))"
    by (simp add: first_renderer_def)
  have m2: "makeDonutLabelRenderer default_config
        (snd (makeDonutLabelRenderer default_config init_store))
      = (second_renderer, two_renderers_store)"
    by (simp add: second_renderer_def two_renderers_store_def)
  have ne: "first_renderer \<noteq> second_renderer"
    by (simp add: first_renderer_def second_renderer_def makeDonutLabelRenderer_def)
  have h3: "\<forall>c\<in>set interleaved_calls.
      fst c = first_renderer \<or> fst c = second_renderer \<or> r_id (fst c) < next_id init_store"
    by (simp add: interleaved_calls_def)
  have h4: "map snd (filter (\<lambda>c. fst c = first_renderer) interleaved_calls)
      = [bottom_sector 0, bottom_sector 1]"
    using ne by (simp add: interleaved_calls_def)
  have h5: "map snd (filter (\<lambda>c. fst c = second_renderer) interleaved_calls)
      = [bottom_sector 0, bottom_sector 1]"
    using ne by (simp add: interleaved_calls_def eq_commute[of first_renderer second_renderer])
  note agree = instances_agree[OF m1 m2 h3 h4 h5]
  from agree have same: "outputs_of first_renderer (run_calls two_renderers_store interleaved_calls)
     = outputs_of second_renderer (run_calls two_renderers_store interleaved_calls)"
    by (rule conjunct1)
  from agree have pass: "outputs_of first_renderer (run_calls two_renderers_store interleaved_calls)
     = snd (render_pass default_config empty_stacks [bottom_sector 0, bottom_sector 1])"
    by (rule conjunct2)
  have "map (map_option ly)
        (outputs_of first_renderer (run_calls two_renderers_store interleaved_calls))
     = [Some 272, Some 288]"
    by (simp only: pass bottom_two_rendered)
  with same show ?thesis by (rule conjI)
qed

text \<open>
  C10. The y pushed on the side's stack is the value before the clamp: the stack grows by the
  result of the search, and the returned element carries the clamped value, which differs
  from the pushed one whenever the search result lies outside the band. In the example pass
  the stack ends as 272, 288, 304, 320, 336 with every search converged, and the fourth and
  fifth label are both rendered at 312.
\<close>

theorem stack_keeps_unclamped_y:
  "(\<exists>l. snd (DonutLabel cfg st0 p) = Some l
      \<and> side_stack cfg (fst (DonutLabel cfg st0 p)) p
          = side_stack cfg (reset_stacks st0 p) p @ [placed_y cfg (reset_stacks st0 p) p]
      \<and> ly l = clamp_y cfg p (placed_y cfg (reset_stacks st0 p) p)
      \<and> (cy p + yLimit cfg p < placed_y cfg (reset_stacks st0 p) p \<longrightarrow>
           ly l = cy p + yLimit cfg p
           \<and> ly l \<noteq> last (side_stack cfg (fst (DonutLabel cfg st0 p)) p))
      \<and> (0 \<le> yLimit cfg p \<and> placed_y cfg (reset_stacks st0 p) p < cy p - yLimit cfg p \<longrightarrow>
           ly l = cy p - yLimit cfg p
           \<and> ly l \<noteq> last (side_stack cfg (fst (DonutLabel cfg st0 p)) p)))
   \<and> usedRight (fst (render_pass default_config empty_stacks bottom_pass))
       = [272, 288, 304, 320, 336]
   \<and> map (map_option ly) (snd (render_pass default_config empty_stacks bottom_pass))
       = [Some 272, Some 288, Some 304, Some 312, Some 312]
   \<and> map p_converged (placements default_config empty_stacks bottom_pass)
       = [True, True, True, True, True]
   \<and> map p_right (placements default_config empty_stacks bottom_pass)
       = [True, True, True, True, True]"
proof -
  obtain l where l: "snd (DonutLabel cfg st0 p) = Some l"
    "ly l = clamp_y cfg p (placed_y cfg (reset_stacks st0 p) p)"
    using DonutLabel_snd by blast
  have st: "side_stack cfg (fst (DonutLabel cfg st0 p)) p
          = side_stack cfg (reset_stacks st0 p) p @ [placed_y cfg (reset_stacks st0 p) p]"
    by (simp add: DonutLabel_fst side_stack_push)
  have up: "clamp_y cfg p y = cy p + yLimit cfg p \<and> clamp_y cfg p y \<noteq> y"
    if "cy p + yLimit cfg p < y" for y
    using that by (simp add: clamp_y_def Let_def)
  have lo: "clamp_y cfg p y = cy p - yLimit cfg p \<and> clamp_y cfg p y \<noteq> y"
    if "0 \<le> yLimit cfg p" "y < cy p - yLimit cfg p" for y
    using that by (simp add: clamp_y_def Let_def)
  have A: "\<exists>l. snd (DonutLabel cfg st0 p) = Some l
      \<and> side_stack cfg (fst (DonutLabel cfg st0 p)) p
          = side_stack cfg (reset_stacks st0 p) p @ [placed_y cfg (reset_stacks st0 p) p]
      \<and> ly l = clamp_y cfg p (placed_y cfg (reset_stacks st0 p) p)
      \<and> (cy p + yLimit cfg p < placed_y cfg (reset_stacks st0 p) p \<longrightarrow>
           ly l = cy p + yLimit cfg p
           \<and> ly l \<noteq> last (side_stack cfg (fst (DonutLabel cfg st0 p)) p))
      \<and> (0 \<le> yLimit cfg p \<and> placed_y cfg (reset_stacks st0 p) p < cy p - yLimit cfg p \<longrightarrow>
           ly l = cy p - yLimit cfg p
           \<and> ly l \<noteq> last (side_stack cfg (fst (DonutLabel cfg st0 p)) p))"
    apply (rule exI[of _ l])
    apply (simp only: l st last_snoc)
    using up lo by blast
  have B: "usedRight (fst (render_pass default_config empty_stacks bottom_pass))
       = [272, 288, 304, 320, 336]"
    by (simp add: bottom_pass_def render_pass_fst bottom_step bottom_searches empty_stacks_def
        del: render_pass.simps(2))
  have C: "map (map_option ly) (snd (render_pass default_config empty_stacks bottom_pass))
       = [Some 272, Some 288, Some 304, Some 312, Some 312]"
    by (simp add: rendered_is_label_y bottom_pass_placements)
  have D: "map p_converged (placements default_config empty_stacks bottom_pass)
       = [True, True, True, True, True]"
    "map p_right (placements default_config empty_stacks bottom_pass)
       = [True, True, True, True, True]"
    by (simp_all add: bottom_pass_placements)
  from A B C D show ?thesis by blast
qed

theorem stack_keeps_unclamped_y_witness:
  "\<exists>l. snd (DonutLabel default_config \<lparr>usedLeft = [], usedRight = [272, 288, 304]\<rparr>
            (bottom_sector 3)) = Some l
     \<and> ly l = 312
     \<and> usedRight (fst (DonutLabel default_config \<lparr>usedLeft = [], usedRight = [272, 288, 304]\<rparr>
            (bottom_sector 3))) = [272, 288, 304, 320]"
  using stack_keeps_unclamped_y[of default_config
      "\<lparr>usedLeft = [], usedRight = [272, 288, 304]\<rparr>" "bottom_sector 3"]
  by (auto simp: bottom_step bottom_placed bottom_clamp bottom_searches bottom_index
      reset_stacks_def)

end
